theory Spec2Isabelle
  imports Main "HOL-Library.AList"
begin

section \<open>The automaton engine of automata_dfa.py\<close>

text \<open>
  States and symbols are Python strings. A Python \<open>set\<close> is a list without
  duplicates (the order stands for the arbitrary iteration order of the hash set; every
  theorem below speaks about \<open>set\<close> of it or holds for each order). A Python
  \<open>dict\<close> is an association list in insertion order, read with \<open>map_of\<close> and
  written with \<open>AList.update\<close>, which keeps the position of a key that is present and
  appends one that is new, as the dictionary does.
\<close>

type_synonym state = string
type_synonym symbol = string
type_synonym row = "(symbol \<times> state) list"
type_synonym table = "(state \<times> row) list"

record dfa =
  states :: "state list"
  alphabet :: "symbol list"
  delta :: table
  start :: "state option"
  accept :: "state list"
  current :: "state option"

text \<open>The class constant \<open>DFA.DEAD\<close>.\<close>

definition DEAD :: state where
  "DEAD = ''__DEAD__''"

subsection \<open>Sets and dictionaries of the source language\<close>

text \<open>\<open>s.add(x)\<close>.\<close>

definition set_add :: "'a \<Rightarrow> 'a list \<Rightarrow> 'a list" where
  "set_add x xs = (if x \<in> set xs then xs else xs @ [x])"

text \<open>\<open>set(xs)\<close> of an iterable.\<close>

definition py_set :: "'a list \<Rightarrow> 'a list" where
  "py_set xs = fold set_add xs []"

text \<open>\<open>xs or []\<close> for an optional iterable: \<open>None\<close> and the empty iterable give \<open>[]\<close>.\<close>

definition or_empty :: "'a list option \<Rightarrow> 'a list" where
  "or_empty xo = (case xo of None \<Rightarrow> [] | Some xs \<Rightarrow> xs)"

text \<open>\<open>d.setdefault(k, v)\<close>: the dictionary afterwards.\<close>

definition setdefault :: "'k \<Rightarrow> 'v \<Rightarrow> ('k \<times> 'v) list \<Rightarrow> ('k \<times> 'v) list" where
  "setdefault k v al = (case map_of al k of None \<Rightarrow> al @ [(k, v)] | Some _ \<Rightarrow> al)"

text \<open>\<open>dict(trans)\<close>: a fresh dictionary with the items of \<open>trans\<close>.\<close>

definition dict_copy :: "('k \<times> 'v) list \<Rightarrow> ('k \<times> 'v) list" where
  "dict_copy al = fold (\<lambda>(k, v). AList.update k v) al []"

text \<open>\<open>self.delta.get(s, {})\<close>.\<close>

definition get_row :: "table \<Rightarrow> state \<Rightarrow> row" where
  "get_row t s = (case map_of t s of None \<Rightarrow> [] | Some r \<Rightarrow> r)"

text \<open>\<open>self.delta.get(s, {}).get(a)\<close>: the entry \<open>transitions[s][a]\<close>, \<open>None\<close> when missing.\<close>

definition lookup :: "table \<Rightarrow> state \<Rightarrow> symbol \<Rightarrow> state option" where
  "lookup t s a = map_of (get_row t s) a"

subsection \<open>Construction helpers\<close>

definition add_state :: "dfa \<Rightarrow> state \<Rightarrow> bool \<Rightarrow> dfa" where
  "add_state d name is_accept =
     (let d1 = d\<lparr>states := set_add name (states d)\<rparr>
      in if is_accept then d1\<lparr>accept := set_add name (accept d1)\<rparr> else d1)"

text \<open>
  \<open>self.delta.setdefault(src, {})[symbol] = tgt\<close> writes into the row stored in the
  table.
\<close>

definition add_transition :: "dfa \<Rightarrow> state \<Rightarrow> symbol \<Rightarrow> state \<Rightarrow> dfa" where
  "add_transition d src symbol tgt =
     (let d1 = d\<lparr>states := set_add src (states d)\<rparr>;
          d2 = d1\<lparr>states := set_add tgt (states d1)\<rparr>;
          d3 = d2\<lparr>alphabet := set_add symbol (alphabet d2)\<rparr>;
          t = setdefault src [] (delta d3)
      in d3\<lparr>delta := AList.update src (AList.update symbol tgt (get_row t src)) t\<rparr>)"

subsection \<open>Totality completion\<close>

text \<open>First loop of \<open>_make_total\<close>: every state gets a row.\<close>

definition ensure_rows :: "state list \<Rightarrow> table \<Rightarrow> table" where
  "ensure_rows ss t = fold (\<lambda>s t. setdefault s [] t) ss t"

text \<open>
  The scan for a missing entry: the inner loop over the alphabet and the outer loop over
  the snapshot of the states, each leaving at the first missing entry.
\<close>

fun scan_symbols :: "row \<Rightarrow> symbol list \<Rightarrow> bool" where
  "scan_symbols r [] = False"
| "scan_symbols r (a # as) = (if map_of r a = None then True else scan_symbols r as)"

fun scan_states :: "table \<Rightarrow> symbol list \<Rightarrow> state list \<Rightarrow> bool" where
  "scan_states t al [] = False"
| "scan_states t al (s # ss) =
     (if scan_symbols (get_row t s) al then True else scan_states t al ss)"

text \<open>
  \<open>for a in self.alphabet: self.delta[dead].setdefault(a, dead)\<close>. The subscript
  \<open>self.delta[dead]\<close> would raise KeyError on a table without a row for the dead
  state; the row is created on the line before, so the branch \<open>None\<close> is never taken
  (lemma \<open>dead_loops_row_present\<close>).
\<close>

definition dead_loops :: "symbol list \<Rightarrow> table \<Rightarrow> table" where
  "dead_loops al t =
     fold (\<lambda>a t. case map_of t DEAD of
                    None \<Rightarrow> t
                  | Some r \<Rightarrow> AList.update DEAD (setdefault a DEAD r) t) al t"

text \<open>\<open>self.delta.setdefault(s, {}).setdefault(a, dead)\<close>.\<close>

definition fill_entry :: "state \<Rightarrow> symbol \<Rightarrow> table \<Rightarrow> table" where
  "fill_entry s a t =
     (let t1 = setdefault s [] t
      in AList.update s (setdefault a DEAD (get_row t1 s)) t1)"

definition fill_missing :: "symbol list \<Rightarrow> state list \<Rightarrow> table \<Rightarrow> table" where
  "fill_missing al ss t = fold (\<lambda>s t. fold (\<lambda>a t. fill_entry s a t) al t) ss t"

definition make_total :: "dfa \<Rightarrow> dfa" where
  "make_total d =
     (let d1 = d\<lparr>delta := ensure_rows (states d) (delta d)\<rparr>
      in if alphabet d1 = [] then d1
         else if scan_states (delta d1) (alphabet d1) (states d1) then
           (let d2 = d1\<lparr>states := set_add DEAD (states d1)\<rparr>;
                d3 = d2\<lparr>delta := setdefault DEAD [] (delta d2)\<rparr>;
                d4 = d3\<lparr>delta := dead_loops (alphabet d3) (delta d3)\<rparr>
            in d4\<lparr>delta := fill_missing (alphabet d4) (states d4) (delta d4)\<rparr>)
         else d1)"

subsection \<open>Simulation\<close>

definition reset :: "dfa \<Rightarrow> dfa" where
  "reset d = d\<lparr>current := start d\<rparr>"

text \<open>\<open>step\<close> returns its result and the automaton afterwards.\<close>

definition step :: "dfa \<Rightarrow> symbol \<Rightarrow> state option \<times> dfa" where
  "step d symbol =
     (if symbol \<notin> set (alphabet d) then (None, d)
      else case current d of
             None \<Rightarrow> (None, d)
           | Some c \<Rightarrow>
               (let d1 = d\<lparr>current := lookup (delta d) c symbol\<rparr>
                in (current d1, d1)))"

fun run_loop :: "dfa \<Rightarrow> symbol list \<Rightarrow> state option \<times> dfa" where
  "run_loop d [] = (current d, d)"
| "run_loop d (ch # w) =
     (if ch \<notin> set (alphabet d) then (None, d) else run_loop (snd (step d ch)) w)"

definition run :: "dfa \<Rightarrow> symbol list \<Rightarrow> state option \<times> dfa" where
  "run d w = run_loop (reset d) w"

definition accepts :: "dfa \<Rightarrow> symbol list \<Rightarrow> bool option \<times> dfa" where
  "accepts d w =
     (case run d w of
        (None, d1) \<Rightarrow> (None, d1)
      | (Some final, d1) \<Rightarrow> (Some (final \<in> set (accept d1)), d1))"

subsection \<open>The constructor\<close>

text \<open>
  \<open>for s, trans in delta.items(): self.delta[s] = dict(trans); self.states.add(s)\<close>.
\<close>

definition copy_transitions :: "table \<Rightarrow> dfa \<Rightarrow> dfa" where
  "copy_transitions dl d =
     fold (\<lambda>(s, trans) d.
             (let d1 = d\<lparr>delta := AList.update s (dict_copy trans) (delta d)\<rparr>
              in d1\<lparr>states := set_add s (states d1)\<rparr>)) dl d"

text \<open>
  \<open>for s_map in list(self.delta.values()): for tgt in s_map.values():
  self.states.add(tgt)\<close>.
\<close>

definition add_targets :: "dfa \<Rightarrow> dfa" where
  "add_targets d =
     fold (\<lambda>s_map d. fold (\<lambda>tgt d. d\<lparr>states := set_add tgt (states d)\<rparr>) (map snd s_map) d)
          (map snd (delta d)) d"

text \<open>
  \<open>DFA(states, alphabet, delta, start, accept, make_total)\<close>. An argument left out is
  \<open>None\<close>; \<open>if delta:\<close> is false for \<open>None\<close> and for the empty dictionary.
\<close>

definition DFA_init ::
  "state list option \<Rightarrow> symbol list option \<Rightarrow> table option \<Rightarrow> state option \<Rightarrow>
   state list option \<Rightarrow> bool \<Rightarrow> dfa" where
  "DFA_init sts alph dl st acc mk =
     (let d0 = \<lparr>states = py_set (or_empty sts), alphabet = py_set (or_empty alph),
                delta = [], start = st, accept = py_set (or_empty acc), current = None\<rparr>;
          d1 = (case dl of
                  None \<Rightarrow> d0
                | Some l \<Rightarrow> if l = [] then d0 else copy_transitions l d0);
          d2 = add_targets d1;
          d3 = (if mk then make_total d2 else d2)
      in reset d3)"

text \<open>\<open>example_ends_with_ab()\<close>.\<close>

definition example_ends_with_ab :: dfa where
  "example_ends_with_ab =
     DFA_init (Some [''q0'', ''q1'', ''q2'']) (Some [''a'', ''b''])
       (Some [(''q0'', [(''a'', ''q1''), (''b'', ''q0'')]),
              (''q1'', [(''a'', ''q1''), (''b'', ''q2'')]),
              (''q2'', [(''a'', ''q1''), (''b'', ''q0'')])])
       (Some ''q0'') (Some [''q2'']) True"


subsection \<open>Notions used in the statements\<close>

text \<open>The flag \<open>need_dead\<close> that the scan of \<open>_make_total\<close> computes.\<close>

definition need_dead :: "dfa \<Rightarrow> bool" where
  "need_dead d = scan_states (delta d) (alphabet d) (states d)"

text \<open>Every target of the table is a state.\<close>

definition closed :: "dfa \<Rightarrow> bool" where
  "closed d = (\<forall>s a t. lookup (delta d) s a = Some t \<longrightarrow> t \<in> set (states d))"

text \<open>
  The states that appear in a table as a transition source, and those that appear as a
  transition target.
\<close>

definition table_sources :: "table \<Rightarrow> state list" where
  "table_sources t = map fst t"

definition table_targets :: "table \<Rightarrow> state list" where
  "table_targets t = concat (map (map snd) (map snd t))"

text \<open>The structural definition of an automaton: everything but the cursor.\<close>

definition structural_part :: "dfa \<Rightarrow> state list \<times> symbol list \<times> table \<times> state option \<times> state list" where
  "structural_part d = (states d, alphabet d, delta d, start d, accept d)"

text \<open>A call of one of the simulation operations, and the automaton after a call.\<close>

datatype call = Reset | Step symbol | Run "symbol list" | Accepts "symbol list"

fun simulate :: "call \<Rightarrow> dfa \<Rightarrow> dfa" where
  "simulate Reset d = reset d"
| "simulate (Step a) d = snd (step d a)"
| "simulate (Run w) d = snd (run d w)"
| "simulate (Accepts w) d = snd (accepts d w)"


subsection \<open>Automata used as concrete inputs\<close>

text \<open>The example automaton built without a start state.\<close>

definition unset_start_dfa :: dfa where
  "unset_start_dfa =
     DFA_init (Some [''q0'', ''q1'', ''q2'']) (Some [''a'', ''b''])
       (Some [(''q0'', [(''a'', ''q1''), (''b'', ''q0'')]),
              (''q1'', [(''a'', ''q1''), (''b'', ''q2'')]),
              (''q2'', [(''a'', ''q1''), (''b'', ''q0'')])])
       None (Some [''q2'']) True"


text \<open>A start state that is not among the states.\<close>

definition start_outside_dfa :: dfa where
  "start_outside_dfa = DFA_init (Some [''q0'']) (Some [''a'']) None (Some ''zz'') None True"

text \<open>
  Two states, two symbols and one of the four entries: as assembled by the constructor
  before completion, and as constructed with completion.
\<close>

definition partial_spec :: dfa where
  "partial_spec =
     DFA_init (Some [''q0'', ''q1'']) (Some [''a'', ''b''])
       (Some [(''q0'', [(''a'', ''q1'')])]) (Some ''q0'') (Some [''q1'']) False"

definition partial_dfa :: dfa where
  "partial_dfa =
     DFA_init (Some [''q0'', ''q1'']) (Some [''a'', ''b''])
       (Some [(''q0'', [(''a'', ''q1'')])]) (Some ''q0'') (Some [''q1'']) True"

text \<open>
  The name of the dead state among the accept states of the caller: before completion
  and constructed with completion.
\<close>

definition accepting_dead_spec :: dfa where
  "accepting_dead_spec =
     DFA_init (Some [''q0'']) (Some [''a'']) None (Some ''q0'') (Some [DEAD]) False"

definition accepting_dead_dfa :: dfa where
  "accepting_dead_dfa =
     DFA_init (Some [''q0'']) (Some [''a'']) None (Some ''q0'') (Some [DEAD]) True"


text \<open>Two states with all four entries, as assembled before completion.\<close>

definition total_spec :: dfa where
  "total_spec =
     DFA_init (Some [''q0'', ''q1'']) (Some [''a'', ''b''])
       (Some [(''q0'', [(''a'', ''q1''), (''b'', ''q0'')]),
              (''q1'', [(''a'', ''q1''), (''b'', ''q0'')])])
       (Some ''q0'') (Some [''q1'']) False"


text \<open>An accept state that is not among the states.\<close>

definition accept_outside_dfa :: dfa where
  "accept_outside_dfa =
     DFA_init (Some [''q0'']) (Some [''a'']) None (Some ''q0'') (Some [''zz'']) True"


text \<open>
  Two states, one of them with the name of the dead state, two symbols and one of the
  four entries: before completion and constructed with completion.
\<close>

definition dead_named_spec :: dfa where
  "dead_named_spec =
     DFA_init (Some [DEAD, ''q0'']) (Some [''a'', ''b''])
       (Some [(''q0'', [(''a'', ''q0'')])]) (Some ''q0'') None False"

definition dead_named_dfa :: dfa where
  "dead_named_dfa =
     DFA_init (Some [DEAD, ''q0'']) (Some [''a'', ''b''])
       (Some [(''q0'', [(''a'', ''q0'')])]) (Some ''q0'') None True"


text \<open>
  No states supplied; the accept state is known only as the target of a transition.
\<close>

definition target_accept_dfa :: dfa where
  "target_accept_dfa =
     DFA_init None (Some [''a'']) (Some [(''q0'', [(''a'', ''r'')])])
       (Some ''q0'') (Some [''r'']) True"

section \<open>Properties\<close>

subsection \<open>Sets and dictionaries\<close>

lemma set_set_add: "set (set_add x xs) = insert x (set xs)"
  by (auto simp: set_add_def)

lemma set_fold_set_add: "set (fold set_add xs acc) = set xs \<union> set acc"
  by (induction xs arbitrary: acc) (auto simp: set_set_add)

lemma set_py_set: "set (py_set xs) = set xs"
  by (simp add: py_set_def set_fold_set_add)

lemma map_of_setdefault:
  "map_of (setdefault k v al) x =
     (if x = k \<and> map_of al k = None then Some v else map_of al x)"
  by (auto simp: setdefault_def map_add_def split: option.splits)

lemma get_row_setdefault: "get_row (setdefault s [] t) s' = get_row t s'"
  by (simp add: get_row_def map_of_setdefault)

lemma lookup_setdefault: "lookup (setdefault s [] t) s' a = lookup t s' a"
  by (simp add: lookup_def get_row_setdefault)

lemma get_row_update: "get_row (AList.update s r t) s' = (if s' = s then r else get_row t s')"
  by (simp add: get_row_def update_conv')

lemma lookup_update:
  "lookup (AList.update s r t) s' a = (if s' = s then map_of r a else lookup t s' a)"
  by (simp add: lookup_def get_row_update)

subsection \<open>Totality completion\<close>

lemma lookup_fill_entry:
  "lookup (fill_entry s a t) s' a' =
     (if s' = s \<and> a' = a \<and> lookup t s a = None then Some DEAD else lookup t s' a')"
  by (simp add: fill_entry_def Let_def lookup_update map_of_setdefault get_row_setdefault
      lookup_setdefault) (simp add: lookup_def)

lemma lookup_fill_symbols:
  "lookup (fold (\<lambda>a t. fill_entry s a t) al t) s' a' =
     (if s' = s \<and> a' \<in> set al \<and> lookup t s a' = None then Some DEAD else lookup t s' a')"
  by (induction al arbitrary: t) (auto simp: lookup_fill_entry)

lemma lookup_fill_missing:
  "lookup (fill_missing al ss t) s a =
     (if s \<in> set ss \<and> a \<in> set al \<and> lookup t s a = None then Some DEAD else lookup t s a)"
  unfolding fill_missing_def
  by (induction ss arbitrary: t) (auto simp: lookup_fill_symbols)

lemma lookup_ensure_rows: "lookup (ensure_rows ss t) s a = lookup t s a"
  unfolding ensure_rows_def
  by (induction ss arbitrary: t) (auto simp: lookup_setdefault)

lemma scan_symbols_iff: "scan_symbols r al \<longleftrightarrow> (\<exists>a \<in> set al. map_of r a = None)"
  by (induction al) auto

lemma scan_states_iff:
  "scan_states t al ss \<longleftrightarrow> (\<exists>s \<in> set ss. \<exists>a \<in> set al. lookup t s a = None)"
  by (induction ss) (auto simp: scan_symbols_iff lookup_def)

lemma dead_loops_row_present:
  "map_of t DEAD \<noteq> None \<Longrightarrow> map_of (dead_loops al t) DEAD \<noteq> None"
  unfolding dead_loops_def
  by (induction al arbitrary: t) (auto simp: update_conv' split: option.splits)

lemma setdefault_row_present: "map_of (setdefault k v t) k \<noteq> None"
  by (simp add: map_of_setdefault)

lemma lookup_dead_loops:
  "map_of t DEAD \<noteq> None \<Longrightarrow>
   lookup (dead_loops al t) s a =
     (if s = DEAD \<and> a \<in> set al \<and> lookup t DEAD a = None then Some DEAD else lookup t s a)"
  unfolding dead_loops_def
proof (induction al arbitrary: t)
  case Nil
  then show ?case by simp
next
  case (Cons b al)
  from Cons.prems obtain r where r: "map_of t DEAD = Some r" by auto
  let ?t = "AList.update DEAD (setdefault b DEAD r) t"
  have p: "map_of ?t DEAD \<noteq> None" by (simp add: update_conv')
  have l: "lookup ?t s' a' = (if s' = DEAD \<and> a' = b \<and> lookup t DEAD b = None then Some DEAD else lookup t s' a')" for s' a'
  proof -
    have g: "get_row t DEAD = r" using r by (simp add: get_row_def)
    show ?thesis
      by (simp add: lookup_update map_of_setdefault) (simp add: lookup_def g)
  qed
  show ?case
    using Cons.IH [OF p] r by (auto simp: l)
qed


lemma make_total_unchanged:
  "alphabet (make_total d) = alphabet d" "start (make_total d) = start d"
  "accept (make_total d) = accept d" "current (make_total d) = current d"
  by (simp_all add: make_total_def Let_def)

lemma need_dead_iff:
  "need_dead d \<longleftrightarrow>
     (\<exists>s \<in> set (states d). \<exists>a \<in> set (alphabet d). lookup (delta d) s a = None)"
  by (simp add: need_dead_def scan_states_iff)

lemma scan_ensure_rows:
  "scan_states (ensure_rows (states d) (delta d)) (alphabet d) (states d) = need_dead d"
  by (simp add: need_dead_def scan_states_iff lookup_ensure_rows)

lemma need_dead_alphabet: "need_dead d \<Longrightarrow> alphabet d \<noteq> []"
  by (auto simp: need_dead_iff)

lemma make_total_complete:
  "\<not> need_dead d \<Longrightarrow> make_total d = d\<lparr>delta := ensure_rows (states d) (delta d)\<rparr>"
  by (simp add: make_total_def Let_def scan_ensure_rows)

lemma make_total_missing:
  "need_dead d \<Longrightarrow> make_total d =
    d\<lparr>states := set_add DEAD (states d),
      delta := fill_missing (alphabet d) (set_add DEAD (states d))
                 (dead_loops (alphabet d)
                    (setdefault DEAD [] (ensure_rows (states d) (delta d))))\<rparr>"
  by (simp add: make_total_def Let_def scan_ensure_rows need_dead_alphabet)

lemma states_make_total:
  "states (make_total d) = (if need_dead d then set_add DEAD (states d) else states d)"
  by (simp add: make_total_missing make_total_complete)

lemma lookup_make_total:
  "lookup (delta (make_total d)) s a =
     (if need_dead d \<and> (s \<in> set (states d) \<or> s = DEAD) \<and> a \<in> set (alphabet d)
         \<and> lookup (delta d) s a = None
      then Some DEAD else lookup (delta d) s a)"
proof (cases "need_dead d")
  case True
  let ?t = "ensure_rows (states d) (delta d)"
  let ?u = "setdefault DEAD [] ?t"
  have p: "map_of ?u DEAD \<noteq> None" by (rule setdefault_row_present)
  have u: "lookup ?u s' a' = lookup (delta d) s' a'" for s' a'
    by (simp add: lookup_setdefault lookup_ensure_rows)
  show ?thesis
    by (cases "s = DEAD")
       (simp_all add: True make_total_missing [OF True] lookup_fill_missing
          lookup_dead_loops [OF p] u set_set_add)
next
  case False
  then show ?thesis
    by (simp add: make_total_complete lookup_ensure_rows)
qed

lemma make_total_total:
  assumes "s \<in> set (states (make_total d))" and "a \<in> set (alphabet (make_total d))"
  shows "lookup (delta (make_total d)) s a \<noteq> None"
proof (cases "need_dead d")
  case True
  with assms have "s \<in> set (states d) \<or> s = DEAD" "a \<in> set (alphabet d)"
    by (auto simp: states_make_total make_total_unchanged set_set_add)
  with True show ?thesis
    by (simp add: lookup_make_total)
next
  case False
  with assms have "s \<in> set (states d)" "a \<in> set (alphabet d)"
    by (simp_all add: states_make_total make_total_unchanged)
  with False have "lookup (delta d) s a \<noteq> None" by (simp add: need_dead_iff)
  with False show ?thesis by (simp add: lookup_make_total)
qed

lemma make_total_closed:
  assumes "closed d" shows "closed (make_total d)"
  unfolding closed_def
proof (intro allI impI)
  fix s a t assume l: "lookup (delta (make_total d)) s a = Some t"
  show "t \<in> set (states (make_total d))"
  proof (cases "lookup (delta d) s a = Some t")
    case True
    with assms have "t \<in> set (states d)" unfolding closed_def by simp
    then show ?thesis by (simp add: states_make_total set_set_add)
  next
    case False
    with l have "t = DEAD" and "need_dead d"
      by (simp_all add: lookup_make_total split: if_splits)
    then show ?thesis by (simp add: states_make_total set_set_add)
  qed
qed

subsection \<open>Assembling the table\<close>

lemma add_all_states:
  "fold (\<lambda>tgt d. d\<lparr>states := set_add tgt (states d)\<rparr>) ts d
     = d\<lparr>states := fold set_add ts (states d)\<rparr>"
  by (induction ts arbitrary: d) auto

lemma add_rows_states:
  "fold (\<lambda>s_map d. fold (\<lambda>tgt d. d\<lparr>states := set_add tgt (states d)\<rparr>) (map snd s_map) d) rs d
     = d\<lparr>states := fold set_add (concat (map (map snd) rs)) (states d)\<rparr>"
  by (induction rs arbitrary: d) (auto simp: add_all_states)

lemma add_targets_eq:
  "add_targets d = d\<lparr>states := fold set_add (concat (map (map snd) (map snd (delta d)))) (states d)\<rparr>"
  by (simp add: add_targets_def add_rows_states)

lemma lookup_SomeD:
  assumes "lookup t s a = Some tgt"
  shows "\<exists>r. (s, r) \<in> set t \<and> (a, tgt) \<in> set r"
proof (cases "map_of t s")
  case None
  with assms show ?thesis by (simp add: lookup_def get_row_def)
next
  case (Some r)
  with assms have "(a, tgt) \<in> set r" by (auto simp: lookup_def get_row_def dest: map_of_SomeD)
  moreover from Some have "(s, r) \<in> set t" by (rule map_of_SomeD)
  ultimately show ?thesis by blast
qed

lemma add_targets_closed: "closed (add_targets d)"
  unfolding closed_def
proof (intro allI impI)
  fix s a t assume "lookup (delta (add_targets d)) s a = Some t"
  then have "lookup (delta d) s a = Some t" by (simp add: add_targets_eq)
  then obtain r where "(s, r) \<in> set (delta d)" "(a, t) \<in> set r"
    by (blast dest: lookup_SomeD)
  then show "t \<in> set (states (add_targets d))"
    by (force simp: add_targets_eq set_fold_set_add)
qed

lemma states_add_targets_mono: "set (states d) \<subseteq> set (states (add_targets d))"
  by (simp add: add_targets_eq set_fold_set_add)

lemma copy_transitions_unchanged:
  "alphabet (copy_transitions l d) = alphabet d" "start (copy_transitions l d) = start d"
  "accept (copy_transitions l d) = accept d" "current (copy_transitions l d) = current d"
  unfolding copy_transitions_def
  by (induction l arbitrary: d; simp add: Let_def split: prod.splits)+

lemma states_copy_transitions:
  "set (states (copy_transitions l d)) = set (states d) \<union> fst ` set l"
  unfolding copy_transitions_def
  by (induction l arbitrary: d) (auto simp: Let_def set_set_add split: prod.splits)


subsection \<open>Simulation\<close>

lemma step_current_only: "snd (step d a) = d\<lparr>current := current (snd (step d a))\<rparr>"
  by (simp add: step_def Let_def split: option.splits)

lemma run_loop_current_only:
  "snd (run_loop d w) = d\<lparr>current := current (snd (run_loop d w))\<rparr>"
proof (induction w arbitrary: d)
  case Nil
  show ?case by simp
next
  case (Cons ch w)
  show ?case
  proof (cases "ch \<in> set (alphabet d)")
    case True
    have "snd (run_loop (snd (step d ch)) w)
        = (snd (step d ch))\<lparr>current := current (snd (run_loop (snd (step d ch)) w))\<rparr>"
      by (rule Cons.IH)
    also have "\<dots> = d\<lparr>current := current (snd (run_loop (snd (step d ch)) w))\<rparr>"
      by (subst step_current_only) simp
    finally show ?thesis using True by simp
  next
    case False
    then show ?thesis by simp
  qed
qed

lemma reset_current_update: "reset (d\<lparr>current := c\<rparr>) = reset d"
  by (simp add: reset_def)

lemma run_current_only: "snd (run d w) = d\<lparr>current := current (snd (run d w))\<rparr>"
proof -
  have "snd (run d w) = (reset d)\<lparr>current := current (snd (run d w))\<rparr>"
    unfolding run_def by (rule run_loop_current_only)
  then show ?thesis by (simp add: reset_def)
qed

lemma run_current_update: "run (d\<lparr>current := c\<rparr>) w = run d w"
  by (simp add: run_def reset_current_update)

lemma accepts_current_update: "accepts (d\<lparr>current := c\<rparr>) w = accepts d w"
  by (simp add: accepts_def run_current_update)

lemma fst_accepts_None: "fst (run d w) = None \<Longrightarrow> fst (accepts d w) = None"
  by (cases "run d w") (auto simp: accepts_def)

lemma snd_accepts: "snd (accepts d w) = snd (run d w)"
  by (simp add: accepts_def split: prod.splits option.splits)

lemma structural_part_current_update:
  "structural_part (d\<lparr>current := c\<rparr>) = structural_part d"
  by (simp add: structural_part_def)

lemma alphabet_step: "alphabet (snd (step d a)) = alphabet d"
  by (subst step_current_only) simp

lemma run_loop_invalid:
  "\<not> set w \<subseteq> set (alphabet d) \<Longrightarrow> fst (run_loop d w) = None"
  by (induction w arbitrary: d) (auto simp: alphabet_step)

lemma run_loop_takeWhile:
  "\<not> set w \<subseteq> set (alphabet d) \<Longrightarrow>
   snd (run_loop d w) = snd (run_loop d (takeWhile (\<lambda>ch. ch \<in> set (alphabet d)) w))"
  by (induction w arbitrary: d) (auto simp: alphabet_step)

lemma run_loop_unset: "current d = None \<Longrightarrow> fst (run_loop d w) = None"
  by (induction w arbitrary: d) (auto simp: step_def)


lemma structural_part_simulate: "structural_part (simulate c d) = structural_part d"
proof (cases c)
  case Reset
  then show ?thesis by (simp add: reset_def structural_part_def)
next
  case (Step a)
  then show ?thesis
    by (simp, subst step_current_only) (rule structural_part_current_update)
next
  case (Run w)
  then show ?thesis
    by (simp, subst run_current_only) (rule structural_part_current_update)
next
  case (Accepts w)
  then show ?thesis
    by (simp add: snd_accepts, subst run_current_only) (rule structural_part_current_update)
qed

text \<open>
  Claim C3. For every automaton and every symbol sequence \<open>w\<close> that contains a symbol
  outside the alphabet, \<open>run w\<close> and \<open>accepts w\<close> both return the invalid sentinel
  \<open>None\<close>, whatever stands before or after that symbol. The first symbol outside the
  alphabet ends the run: the automaton is left as the run of the symbols before it
  leaves it.
\<close>

theorem invalid_symbol_aborts_run:
  assumes "\<not> set w \<subseteq> set (alphabet d)"
  shows "fst (run d w) = None \<and> fst (accepts d w) = None
    \<and> snd (run d w) = snd (run d (takeWhile (\<lambda>ch. ch \<in> set (alphabet d)) w))"
proof -
  from assms have inv: "\<not> set w \<subseteq> set (alphabet (reset d))" by (simp add: reset_def)
  have r: "fst (run d w) = None"
    unfolding run_def using inv by (rule run_loop_invalid)
  then have a: "fst (accepts d w) = None"
    by (rule fst_accepts_None)
  have "snd (run d w)
      = snd (run_loop (reset d) (takeWhile (\<lambda>ch. ch \<in> set (alphabet (reset d))) w))"
    unfolding run_def using inv by (rule run_loop_takeWhile)
  then have "snd (run d w) = snd (run d (takeWhile (\<lambda>ch. ch \<in> set (alphabet d)) w))"
    by (simp add: run_def reset_def)
  with r a show ?thesis by simp
qed

theorem invalid_symbol_aborts_run_witness:
  "\<not> set [''a'', ''c'', ''b''] \<subseteq> set (alphabet example_ends_with_ab)
   \<and> fst (run example_ends_with_ab [''a'', ''c'', ''b'']) = None
   \<and> fst (accepts example_ends_with_ab [''a'', ''c'', ''b'']) = None
   \<and> current (snd (run example_ends_with_ab [''a'', ''c'', ''b''])) = Some ''q1''"
proof -
  have h: "\<not> set [''a'', ''c'', ''b''] \<subseteq> set (alphabet example_ends_with_ab)"
    by code_simp
  have c: "current (snd (run example_ends_with_ab [''a''])) = Some ''q1''"
    by code_simp
  have t: "takeWhile (\<lambda>ch. ch \<in> set (alphabet example_ends_with_ab)) [''a'', ''c'', ''b'']
      = [''a'']"
    by code_simp
  from invalid_symbol_aborts_run [OF h] h c t show ?thesis by simp
qed

text \<open>
  Claim C4. Running the same sequence twice in succession gives the same result, for
  \<open>run\<close> and for \<open>accepts\<close>; the outcome does not depend on the cursor before the
  call, since \<open>run\<close> resets first. The second run also leaves the automaton as the
  first one did.
\<close>

theorem run_deterministic:
  "run (snd (run d w)) w = run d w \<and> accepts (snd (accepts d w)) w = accepts d w
   \<and> run (d\<lparr>current := c\<rparr>) w = run d w \<and> accepts (d\<lparr>current := c\<rparr>) w = accepts d w"
proof -
  have r: "run (snd (run d w)) w = run d w"
    by (subst run_current_only) (rule run_current_update)
  have "accepts (snd (run d w)) w = accepts d w"
    by (subst run_current_only) (rule accepts_current_update)
  then have a: "accepts (snd (accepts d w)) w = accepts d w"
    by (simp add: snd_accepts)
  from r a show ?thesis
    by (simp add: run_current_update accepts_current_update)
qed

text \<open>
  Claim C6, as amended. \<open>run\<close> on the empty sequence returns the start state (unset
  when the start state is unset). When the start state is set, \<open>accepts\<close> on the empty
  sequence is the membership of the start state in \<open>accept\<close>; when it is unset,
  \<open>accepts\<close> returns the invalid sentinel \<open>None\<close>.
\<close>

theorem run_empty:
  "fst (run d []) = start d
   \<and> fst (accepts d []) = (case start d of None \<Rightarrow> None | Some s \<Rightarrow> Some (s \<in> set (accept d)))"
  by (simp add: run_def accepts_def reset_def split: option.splits)

text \<open>
  With the start state unset, \<open>accepts\<close> on the empty sequence is \<open>None\<close>, while
  the unset start state is no member of \<open>accept\<close>.
\<close>

theorem accepts_empty_unset_start:
  "start unset_start_dfa = None \<and> fst (accepts unset_start_dfa []) = None
   \<and> fst (accepts unset_start_dfa []) \<noteq> Some False"
  by code_simp

text \<open>
  Claim C9. \<open>reset\<close>, \<open>step\<close>, \<open>run\<close> and \<open>accepts\<close>, and every sequence of
  such calls, leave \<open>states\<close>, \<open>alphabet\<close>, the transition table, \<open>start\<close> and
  \<open>accept\<close> as they were; only \<open>current\<close> may change.
\<close>

theorem simulation_keeps_structure:
  "structural_part (reset d) = structural_part d
   \<and> structural_part (snd (step d a)) = structural_part d
   \<and> structural_part (snd (run d w)) = structural_part d
   \<and> structural_part (snd (accepts d w)) = structural_part d
   \<and> structural_part (fold simulate cs d) = structural_part d"
proof -
  have "structural_part (fold simulate cs d) = structural_part d"
    by (induction cs arbitrary: d) (simp_all add: structural_part_simulate)
  with structural_part_simulate [of Reset d] structural_part_simulate [of "Step a" d]
    structural_part_simulate [of "Run w" d] structural_part_simulate [of "Accepts w" d]
  show ?thesis by simp
qed

text \<open>
  Claim C10. For an automaton whose start state is unset, \<open>run w\<close> and \<open>accepts w\<close>
  return the invalid sentinel \<open>None\<close> for every sequence \<open>w\<close>, the empty one and
  those over the alphabet included: an invalid result also comes from an unset cursor.
\<close>

theorem unset_start_invalid:
  assumes "start d = None"
  shows "fst (run d w) = None \<and> fst (accepts d w) = None"
proof -
  from assms have "current (reset d) = None" by (simp add: reset_def)
  then have "fst (run d w) = None" unfolding run_def by (rule run_loop_unset)
  then show ?thesis by (simp add: fst_accepts_None)
qed

theorem unset_start_invalid_witness:
  "start unset_start_dfa = None \<and> set [''a'', ''b''] \<subseteq> set (alphabet unset_start_dfa)
   \<and> fst (run unset_start_dfa [''a'', ''b'']) = None
   \<and> fst (accepts unset_start_dfa [''a'', ''b'']) = None"
proof -
  have h: "start unset_start_dfa = None" by code_simp
  have i: "set [''a'', ''b''] \<subseteq> set (alphabet unset_start_dfa)" by code_simp
  from unset_start_invalid [OF h, of "[''a'', ''b'']"] h i show ?thesis by simp
qed


subsection \<open>The constructor and the completed table\<close>

lemma make_total_current_update:
  "make_total (d\<lparr>current := c\<rparr>) = (make_total d)\<lparr>current := c\<rparr>"
  by (simp add: make_total_def Let_def)

lemma DFA_init_completed:
  "DFA_init sts alph dl st acc True = make_total (DFA_init sts alph dl st acc False)"
  by (simp add: DFA_init_def Let_def reset_def make_total_current_update make_total_unchanged)

lemma add_targets_unchanged:
  "alphabet (add_targets d) = alphabet d" "start (add_targets d) = start d"
  "accept (add_targets d) = accept d" "current (add_targets d) = current d"
  "delta (add_targets d) = delta d"
  by (simp_all add: add_targets_eq)

lemma closed_current_update: "closed (d\<lparr>current := c\<rparr>) = closed d"
  by (simp add: closed_def)

lemma DFA_init_closed: "closed (DFA_init sts alph dl st acc mk)"
proof -
  have "closed (DFA_init sts alph dl st acc False)"
    by (simp add: DFA_init_def Let_def reset_def closed_current_update add_targets_closed)
  then show ?thesis
    by (cases mk) (simp_all add: DFA_init_completed make_total_closed)
qed

lemma DFA_init_accept: "accept (DFA_init sts alph dl st acc mk) = py_set (or_empty acc)"
  by (simp add: DFA_init_def Let_def reset_def make_total_unchanged add_targets_unchanged
      copy_transitions_unchanged split: option.splits)

lemma states_make_total_mono: "set (states d) \<subseteq> set (states (make_total d))"
  by (auto simp: states_make_total set_set_add)

lemma DFA_init_states: "set (or_empty sts) \<subseteq> set (states (DFA_init sts alph dl st acc mk))"
proof -
  let ?d0 = "\<lparr>states = py_set (or_empty sts), alphabet = py_set (or_empty alph),
      delta = [], start = st, accept = py_set (or_empty acc), current = None\<rparr>"
  let ?d1 = "case dl of None \<Rightarrow> ?d0 | Some l \<Rightarrow> if l = [] then ?d0 else copy_transitions l ?d0"
  have "set (or_empty sts) \<subseteq> set (states ?d1)"
    by (auto simp: set_py_set states_copy_transitions split: option.splits)
  also have "\<dots> \<subseteq> set (states (add_targets ?d1))"
    by (rule states_add_targets_mono)
  finally have f: "set (or_empty sts) \<subseteq> set (states (DFA_init sts alph dl st acc False))"
    by (simp add: DFA_init_def Let_def reset_def)
  show ?thesis
  proof (cases mk)
    case True
    from f states_make_total_mono [of "DFA_init sts alph dl st acc False"]
    have "set (or_empty sts) \<subseteq> set (states (make_total (DFA_init sts alph dl st acc False)))"
      by (rule subset_trans)
    with True show ?thesis by (simp add: DFA_init_completed)
  next
    case False
    with f show ?thesis by simp
  qed
qed

subsection \<open>Sources and targets of the copied table\<close>

lemma table_sources_Nil: "table_sources [] = []"
  by (simp add: table_sources_def)

lemma sources_copy_transitions:
  "set (table_sources (delta (copy_transitions l d)))
     = set (table_sources (delta d)) \<union> fst ` set l"
  unfolding copy_transitions_def table_sources_def
  by (induction l arbitrary: d) (auto simp: Let_def dom_update split: prod.splits)

lemma DFA_init_assembled_states:
  "set (states (DFA_init sts alph dl st acc False))
     = set (or_empty sts)
       \<union> set (table_sources (delta (DFA_init sts alph dl st acc False)))
       \<union> set (table_targets (delta (DFA_init sts alph dl st acc False)))"
proof -
  let ?d0 = "\<lparr>states = py_set (or_empty sts), alphabet = py_set (or_empty alph),
      delta = [], start = st, accept = py_set (or_empty acc), current = None\<rparr>"
  let ?d1 = "case dl of None \<Rightarrow> ?d0 | Some l \<Rightarrow> if l = [] then ?d0 else copy_transitions l ?d0"
  have 1: "set (states ?d1) = set (or_empty sts) \<union> set (table_sources (delta ?d1))"
    by (cases dl)
       (simp_all add: set_py_set states_copy_transitions sources_copy_transitions
          table_sources_Nil)
  have 2: "DFA_init sts alph dl st acc False = reset (add_targets ?d1)"
    by (simp add: DFA_init_def Let_def)
  have 3: "delta (reset (add_targets ?d1)) = delta ?d1"
    by (simp add: reset_def add_targets_unchanged)
  have 4: "set (states (reset (add_targets ?d1)))
      = set (table_targets (delta ?d1)) \<union> set (states ?d1)"
    by (simp add: reset_def add_targets_eq set_fold_set_add table_targets_def)
  show ?thesis
    unfolding 2 3 4 1 by auto
qed

lemma DFA_init_sources_known:
  "set (table_sources (delta (DFA_init sts alph dl st acc False)))
     \<subseteq> set (states (DFA_init sts alph dl st acc False))"
  using DFA_init_assembled_states [of sts alph dl st acc] by auto

lemma lookup_not_source:
  assumes "s \<notin> set (table_sources t)"
  shows "lookup t s a = None"
proof -
  from assms have "map_of t s = None"
    by (simp add: table_sources_def map_of_eq_None_iff)
  then show ?thesis by (simp add: lookup_def get_row_def)
qed

lemma fresh_dead_absorbing:
  assumes "set (table_sources (delta d)) \<subseteq> set (states d)"
    and "DEAD \<notin> set (states d)" and "need_dead d" and "a \<in> set (alphabet d)"
  shows "lookup (delta (make_total d)) DEAD a = Some DEAD"
proof -
  from assms(1,2) have "DEAD \<notin> set (table_sources (delta d))" by auto
  then have "lookup (delta d) DEAD a = None" by (rule lookup_not_source)
  with assms(3,4) show ?thesis by (simp add: lookup_make_total)
qed


lemma update_fresh: "k \<notin> fst ` set al \<Longrightarrow> AList.update k v al = al @ [(k, v)]"
  by (induction al) auto

lemma fold_update_distinct:
  "distinct (map fst (al @ r)) \<Longrightarrow> fold (\<lambda>(k, v). AList.update k v) r al = al @ r"
proof (induction r arbitrary: al)
  case Nil
  show ?case by simp
next
  case (Cons x r)
  obtain k v where x: "x = (k, v)" by (cases x)
  from Cons.prems have k: "k \<notin> fst ` set al" by (auto simp: x)
  from Cons.prems have "distinct (map fst ((al @ [(k, v)]) @ r))" by (simp add: x)
  from Cons.IH [OF this] show ?case by (simp add: x update_fresh [OF k])
qed

lemma dict_copy_dict: "distinct (map fst r) \<Longrightarrow> dict_copy r = r"
  using fold_update_distinct [of "[]" r] by (simp add: dict_copy_def)

lemma delta_copy_transitions:
  "distinct (map fst (delta d @ l)) \<Longrightarrow> \<forall>r \<in> set (map snd l). distinct (map fst r) \<Longrightarrow>
   delta (copy_transitions l d) = delta d @ l"
  unfolding copy_transitions_def
proof (induction l arbitrary: d)
  case Nil
  show ?case by simp
next
  case (Cons x l)
  obtain s r where x: "x = (s, r)" by (cases x)
  let ?d = "d\<lparr>delta := AList.update s (dict_copy r) (delta d),
      states := set_add s (states d)\<rparr>"
  from Cons.prems(1) have s: "s \<notin> fst ` set (delta d)" by (auto simp: x)
  from Cons.prems(2) have r: "dict_copy r = r" by (simp add: x dict_copy_dict)
  have dl: "delta ?d = delta d @ [(s, r)]" by (simp add: update_fresh [OF s] r)
  from Cons.prems(1) have 1: "distinct (map fst (delta ?d @ l))" by (simp add: dl x)
  from Cons.prems(2) have 2: "\<forall>r \<in> set (map snd l). distinct (map fst r)" by simp
  from Cons.IH [OF 1 2] show ?case by (simp add: x Let_def dl)
qed

lemma DFA_init_table_copied:
  assumes "distinct (map fst l)" and "\<forall>r \<in> set (map snd l). distinct (map fst r)"
  shows "delta (DFA_init sts alph (Some l) st acc False) = l"
proof (cases "l = []")
  case True
  then show ?thesis
    by (simp add: DFA_init_def Let_def reset_def add_targets_unchanged)
next
  case False
  let ?d0 = "\<lparr>states = py_set (or_empty sts), alphabet = py_set (or_empty alph),
      delta = [], start = st, accept = py_set (or_empty acc), current = None\<rparr>"
  from assms have "delta (copy_transitions l ?d0) = delta ?d0 @ l"
    by (intro delta_copy_transitions) simp_all
  with False show ?thesis
    by (simp add: DFA_init_def Let_def reset_def add_targets_unchanged)
qed

lemma DFA_init_constructed_states:
  "set (states (DFA_init sts alph dl st acc mk))
     = set (or_empty sts)
       \<union> set (table_sources (delta (DFA_init sts alph dl st acc False)))
       \<union> set (table_targets (delta (DFA_init sts alph dl st acc False)))
       \<union> (if mk \<and> need_dead (DFA_init sts alph dl st acc False) then {DEAD} else {})"
proof (cases mk)
  case True
  then show ?thesis
    by (simp add: DFA_init_completed states_make_total set_set_add
        DFA_init_assembled_states [symmetric])
next
  case False
  then show ?thesis
    by (simp add: DFA_init_assembled_states [symmetric])
qed

lemma DFA_init_sources:
  "set (table_sources (delta (DFA_init sts alph dl st acc False))) = fst ` set (or_empty dl)"
proof -
  let ?d0 = "\<lparr>states = py_set (or_empty sts), alphabet = py_set (or_empty alph),
      delta = [], start = st, accept = py_set (or_empty acc), current = None\<rparr>"
  let ?d1 = "case dl of None \<Rightarrow> ?d0 | Some l \<Rightarrow> if l = [] then ?d0 else copy_transitions l ?d0"
  have "set (table_sources (delta ?d1)) = fst ` set (or_empty dl)"
    by (cases dl) (simp_all add: sources_copy_transitions table_sources_Nil or_empty_def)
  then show ?thesis
    by (simp add: DFA_init_def Let_def reset_def add_targets_unchanged)
qed

subsection \<open>Totality after construction\<close>

text \<open>
  Claim C1, as amended. For every automaton constructed with \<open>make_total = True\<close>,
  \<open>transitions[s][a]\<close> is defined for every state \<open>s\<close> in \<open>states\<close> and every symbol
  \<open>a\<close> in \<open>alphabet\<close>; and \<open>step\<close> on a symbol of the alphabet, with the current
  state a member of \<open>states\<close>, returns a state that is again a member of \<open>states\<close>, and
  never the unset sentinel.
\<close>

theorem completed_construction_total:
  assumes "D = DFA_init sts alph dl st acc True"
  shows "(\<forall>s \<in> set (states D). \<forall>a \<in> set (alphabet D). lookup (delta D) s a \<noteq> None)
    \<and> (\<forall>s \<in> set (states D). \<forall>a \<in> set (alphabet D). \<exists>t \<in> set (states D).
          step (D\<lparr>current := Some s\<rparr>) a = (Some t, D\<lparr>current := Some t\<rparr>))"
proof -
  have D: "D = make_total (DFA_init sts alph dl st acc False)"
    unfolding assms by (rule DFA_init_completed)
  have total: "lookup (delta D) s a \<noteq> None"
    if "s \<in> set (states D)" "a \<in> set (alphabet D)" for s a
    using that unfolding D by (rule make_total_total)
  have cl: "closed D" unfolding assms by (rule DFA_init_closed)
  have st: "\<exists>t \<in> set (states D). step (D\<lparr>current := Some s\<rparr>) a = (Some t, D\<lparr>current := Some t\<rparr>)"
    if s: "s \<in> set (states D)" and a: "a \<in> set (alphabet D)" for s a
  proof -
    from total [OF s a] obtain t where t: "lookup (delta D) s a = Some t" by auto
    with cl have "t \<in> set (states D)" unfolding closed_def by simp
    moreover from a t have "step (D\<lparr>current := Some s\<rparr>) a = (Some t, D\<lparr>current := Some t\<rparr>)"
      by (simp add: step_def)
    ultimately show ?thesis by simp
  qed
  from total st show ?thesis by simp
qed


text \<open>
  A start state outside \<open>states\<close>: after construction with completion the cursor is
  set, the symbol is in the alphabet, and \<open>step\<close> finds no entry.
\<close>

theorem step_from_unknown_start:
  "''a'' \<in> set (alphabet start_outside_dfa) \<and> current start_outside_dfa = Some ''zz''
   \<and> fst (step start_outside_dfa ''a'') = None"
  by code_simp

theorem completed_construction_total_witness:
  "''q1'' \<in> set (states partial_dfa) \<and> ''b'' \<in> set (alphabet partial_dfa)
   \<and> lookup (delta partial_dfa) ''q1'' ''b'' \<noteq> None
   \<and> fst (step (partial_dfa\<lparr>current := Some ''q1''\<rparr>) ''b'') \<noteq> None"
proof -
  have s: "''q1'' \<in> set (states partial_dfa)" by code_simp
  have a: "''b'' \<in> set (alphabet partial_dfa)" by code_simp
  from completed_construction_total [OF partial_dfa_def] s a show ?thesis by force
qed

text \<open>
  Claim C2, as amended. When construction with \<open>make_total = True\<close> synthesizes a
  dead state, that is, an entry of the assembled table is missing and the name of the
  dead state is not yet a state, completion adds the dead state to \<open>states\<close> and it is
  absorbing: \<open>transitions[dead][a] = dead\<close>, and \<open>step\<close> from it stays in it, for
  every symbol \<open>a\<close> of the alphabet. Completion leaves \<open>accept\<close> as the caller
  supplied it, so the dead state is non-accepting exactly when the caller did not list
  its name in \<open>accept\<close>.
\<close>

theorem dead_state_absorbing:
  assumes "d0 = DFA_init sts alph dl st acc False"
    and "D = DFA_init sts alph dl st acc True"
    and "\<exists>s \<in> set (states d0). \<exists>a \<in> set (alphabet d0). lookup (delta d0) s a = None"
    and "DEAD \<notin> set (states d0)"
  shows "D = make_total d0 \<and> set (states D) = insert DEAD (set (states d0))
    \<and> (\<forall>a \<in> set (alphabet D).
          lookup (delta D) DEAD a = Some DEAD
          \<and> step (D\<lparr>current := Some DEAD\<rparr>) a = (Some DEAD, D\<lparr>current := Some DEAD\<rparr>))
    \<and> accept D = accept d0 \<and> set (accept D) = set (or_empty acc)
    \<and> (DEAD \<notin> set (accept D) \<longleftrightarrow> DEAD \<notin> set (or_empty acc))"
proof -
  have D: "D = make_total d0"
    unfolding assms(1,2) by (rule DFA_init_completed)
  from assms(3) have n: "need_dead d0" by (simp add: need_dead_iff)
  have src: "set (table_sources (delta d0)) \<subseteq> set (states d0)"
    unfolding assms(1) by (rule DFA_init_sources_known)
  have st: "set (states D) = insert DEAD (set (states d0))"
    by (simp add: D states_make_total n set_set_add)
  have al: "alphabet D = alphabet d0" by (simp add: D make_total_unchanged)
  have l: "lookup (delta D) DEAD a = Some DEAD" if "a \<in> set (alphabet D)" for a
    unfolding D using src assms(4) n that [unfolded al] by (rule fresh_dead_absorbing)
  have s: "step (D\<lparr>current := Some DEAD\<rparr>) a = (Some DEAD, D\<lparr>current := Some DEAD\<rparr>)"
    if "a \<in> set (alphabet D)" for a
    using that l [OF that] by (simp add: step_def)
  have ac: "accept D = accept d0" by (simp add: D make_total_unchanged)
  have ac': "set (accept D) = set (or_empty acc)"
    by (simp add: assms(2) DFA_init_accept set_py_set)
  from D st l s ac ac' show ?thesis by simp
qed

theorem dead_state_absorbing_witness:
  "lookup (delta partial_spec) ''q1'' ''a'' = None
   \<and> DEAD \<notin> set (states partial_spec)
   \<and> DEAD \<in> set (states partial_dfa)
   \<and> lookup (delta partial_dfa) DEAD ''a'' = Some DEAD
   \<and> lookup (delta partial_dfa) DEAD ''b'' = Some DEAD
   \<and> fst (step (partial_dfa\<lparr>current := Some DEAD\<rparr>) ''b'') = Some DEAD
   \<and> DEAD \<notin> set (accept partial_dfa)"
proof -
  have s: "states partial_spec = [''q0'', ''q1'']" and a: "alphabet partial_spec = [''a'', ''b'']"
    by code_simp+
  have m: "lookup (delta partial_spec) ''q1'' ''a'' = None" by code_simp
  have h1: "\<exists>s \<in> set (states partial_spec). \<exists>a \<in> set (alphabet partial_spec).
      lookup (delta partial_spec) s a = None"
    using m by (simp add: s a)
  have h2: "DEAD \<notin> set (states partial_spec)" by (simp add: s DEAD_def)
  have al: "alphabet partial_dfa = [''a'', ''b'']" by code_simp
  have ac: "DEAD \<notin> set (or_empty (Some [''q1'']))" by (simp add: or_empty_def DEAD_def)
  have ac0: "accept partial_spec = [''q1'']" by code_simp
  from dead_state_absorbing [OF partial_spec_def partial_dfa_def h1 h2] m h2 ac
  show ?thesis by (simp add: al ac0 DEAD_def)
qed

text \<open>
  The name of the dead state listed in \<open>accept\<close> by the caller: it is no state
  before completion, completion synthesizes the dead state with its self-loop, and the
  dead state is accepting.
\<close>

theorem dead_state_accepting:
  "DEAD \<notin> set (states accepting_dead_spec)
   \<and> lookup (delta accepting_dead_spec) ''q0'' ''a'' = None
   \<and> DEAD \<in> set (states accepting_dead_dfa)
   \<and> lookup (delta accepting_dead_dfa) DEAD ''a'' = Some DEAD
   \<and> DEAD \<in> set (accept accepting_dead_dfa)"
  by code_simp

subsection \<open>Completion of a total table\<close>

lemma setdefault_present: "map_of t k \<noteq> None \<Longrightarrow> setdefault k v t = t"
  by (auto simp: setdefault_def)

lemma ensure_rows_present:
  "\<forall>s \<in> set ss. map_of t s \<noteq> None \<Longrightarrow> ensure_rows ss t = t"
  unfolding ensure_rows_def
  by (induction ss) (simp_all add: setdefault_present)

lemma lookup_row_present: "lookup t s a \<noteq> None \<Longrightarrow> map_of t s \<noteq> None"
  by (cases "map_of t s") (simp_all add: lookup_def get_row_def)

text \<open>
  Claim C5. When the table is already total (every state of \<open>states\<close> has a target
  for every symbol of \<open>alphabet\<close>), totality completion leaves \<open>states\<close> and
  \<open>alphabet\<close> as they were, adds no dead state, and every entry of the table, present or
  missing, stays what it was; \<open>start\<close>, \<open>accept\<close> and \<open>current\<close> are untouched.
  With a non-empty alphabet the automaton is left identical.
\<close>

theorem completion_of_total_table:
  assumes "\<forall>s \<in> set (states d). \<forall>a \<in> set (alphabet d). lookup (delta d) s a \<noteq> None"
  shows "states (make_total d) = states d \<and> alphabet (make_total d) = alphabet d
    \<and> lookup (delta (make_total d)) s a = lookup (delta d) s a
    \<and> (DEAD \<in> set (states (make_total d)) \<longleftrightarrow> DEAD \<in> set (states d))
    \<and> start (make_total d) = start d \<and> accept (make_total d) = accept d
    \<and> current (make_total d) = current d
    \<and> (alphabet d \<noteq> [] \<longrightarrow> make_total d = d)"
proof -
  from assms have n: "\<not> need_dead d" by (simp add: need_dead_iff)
  have id: "make_total d = d" if "alphabet d \<noteq> []"
  proof -
    from that obtain a where a: "a \<in> set (alphabet d)" by (cases "alphabet d") auto
    have "\<forall>s \<in> set (states d). map_of (delta d) s \<noteq> None"
    proof
      fix s assume "s \<in> set (states d)"
      with assms a have "lookup (delta d) s a \<noteq> None" by simp
      then show "map_of (delta d) s \<noteq> None" by (rule lookup_row_present)
    qed
    then have "ensure_rows (states d) (delta d) = delta d" by (rule ensure_rows_present)
    with n show ?thesis by (simp add: make_total_complete)
  qed
  from n id show ?thesis
    by (simp add: states_make_total lookup_make_total make_total_unchanged)
qed

theorem completion_of_total_table_witness:
  "lookup (delta total_spec) ''q0'' ''a'' \<noteq> None
   \<and> lookup (delta total_spec) ''q0'' ''b'' \<noteq> None
   \<and> lookup (delta total_spec) ''q1'' ''a'' \<noteq> None
   \<and> lookup (delta total_spec) ''q1'' ''b'' \<noteq> None
   \<and> states (make_total total_spec) = [''q0'', ''q1'']
   \<and> lookup (delta (make_total total_spec)) ''q1'' ''b'' = Some ''q0''
   \<and> DEAD \<notin> set (states (make_total total_spec))
   \<and> make_total total_spec = total_spec"
proof -
  have s: "states total_spec = [''q0'', ''q1'']" and a: "alphabet total_spec = [''a'', ''b'']"
    by code_simp+
  have l: "lookup (delta total_spec) ''q0'' ''a'' = Some ''q1''"
    "lookup (delta total_spec) ''q0'' ''b'' = Some ''q0''"
    "lookup (delta total_spec) ''q1'' ''a'' = Some ''q1''"
    "lookup (delta total_spec) ''q1'' ''b'' = Some ''q0''"
    by code_simp+
  have h: "\<forall>s \<in> set (states total_spec). \<forall>a \<in> set (alphabet total_spec).
      lookup (delta total_spec) s a \<noteq> None"
    by (simp add: s a l)
  from completion_of_total_table [OF h, of "''q1''" "''b''"] show ?thesis
    by (simp add: s a l DEAD_def)
qed


subsection \<open>Accept states and states\<close>

lemma accept_subset_current_update:
  "set (accept d) \<subseteq> set (states d) \<Longrightarrow>
   set (accept (d\<lparr>current := c\<rparr>)) \<subseteq> set (states (d\<lparr>current := c\<rparr>))"
  by simp

text \<open>
  Claim C7, as amended. Construction stores \<open>accept\<close> as supplied and ends with the
  states supplied, the sources and the targets of the copied transition table, and the
  dead state when completion adds it. So \<open>accept\<close> is a subset of \<open>states\<close> after
  construction exactly when every accept state supplied is one of these. From then on
  \<open>add_state\<close>, \<open>add_transition\<close>, totality completion, \<open>reset\<close>, \<open>step\<close>,
  \<open>run\<close> and \<open>accepts\<close> each keep it. (For a specification that is a dictionary of
  dictionaries the copied table is the specification itself, lemma
  \<open>DFA_init_table_copied\<close>.)
\<close>

theorem accept_subset_states_kept:
  assumes "d0 = DFA_init sts alph dl st acc False" and "D = DFA_init sts alph dl st acc mk"
  shows "set (accept D) = set (or_empty acc)
    \<and> set (states D)
        = set (or_empty sts) \<union> set (table_sources (delta d0)) \<union> set (table_targets (delta d0))
          \<union> (if mk \<and> need_dead d0 then {DEAD} else {})
    \<and> (set (accept D) \<subseteq> set (states D) \<longleftrightarrow>
         set (or_empty acc)
           \<subseteq> set (or_empty sts) \<union> set (table_sources (delta d0))
             \<union> set (table_targets (delta d0))
             \<union> (if mk \<and> need_dead d0 then {DEAD} else {}))
    \<and> (set (accept d) \<subseteq> set (states d) \<longrightarrow>
        set (accept (add_state d name is_accept)) \<subseteq> set (states (add_state d name is_accept))
      \<and> set (accept (add_transition d src symbol tgt))
           \<subseteq> set (states (add_transition d src symbol tgt))
      \<and> set (accept (make_total d)) \<subseteq> set (states (make_total d))
      \<and> set (accept (reset d)) \<subseteq> set (states (reset d))
      \<and> set (accept (snd (step d symbol))) \<subseteq> set (states (snd (step d symbol)))
      \<and> set (accept (snd (run d w))) \<subseteq> set (states (snd (run d w)))
      \<and> set (accept (snd (accepts d w))) \<subseteq> set (states (snd (accepts d w))))"
proof -
  have ac: "set (accept D) = set (or_empty acc)"
    by (simp add: assms(2) DFA_init_accept set_py_set)
  have st: "set (states D)
      = set (or_empty sts) \<union> set (table_sources (delta d0)) \<union> set (table_targets (delta d0))
        \<union> (if mk \<and> need_dead d0 then {DEAD} else {})"
    unfolding assms by (rule DFA_init_constructed_states)
  have iff: "set (accept D) \<subseteq> set (states D) \<longleftrightarrow>
       set (or_empty acc)
         \<subseteq> set (or_empty sts) \<union> set (table_sources (delta d0))
           \<union> set (table_targets (delta d0))
           \<union> (if mk \<and> need_dead d0 then {DEAD} else {})"
    unfolding ac st ..
  have ops: "set (accept (add_state d name is_accept)) \<subseteq> set (states (add_state d name is_accept))
      \<and> set (accept (add_transition d src symbol tgt))
           \<subseteq> set (states (add_transition d src symbol tgt))
      \<and> set (accept (make_total d)) \<subseteq> set (states (make_total d))
      \<and> set (accept (reset d)) \<subseteq> set (states (reset d))
      \<and> set (accept (snd (step d symbol))) \<subseteq> set (states (snd (step d symbol)))
      \<and> set (accept (snd (run d w))) \<subseteq> set (states (snd (run d w)))
      \<and> set (accept (snd (accepts d w))) \<subseteq> set (states (snd (accepts d w)))"
    if inv: "set (accept d) \<subseteq> set (states d)"
  proof -
    from inv have 1: "set (accept (add_state d name is_accept))
        \<subseteq> set (states (add_state d name is_accept))"
      by (auto simp: add_state_def Let_def set_set_add)
    from inv have 2: "set (accept (add_transition d src symbol tgt))
        \<subseteq> set (states (add_transition d src symbol tgt))"
      by (auto simp: add_transition_def Let_def set_set_add)
    from inv states_make_total_mono [of d]
    have 3: "set (accept (make_total d)) \<subseteq> set (states (make_total d))"
      by (simp add: make_total_unchanged)
    from inv have 4: "set (accept (reset d)) \<subseteq> set (states (reset d))"
      by (simp add: reset_def)
    have 5: "set (accept (snd (step d symbol))) \<subseteq> set (states (snd (step d symbol)))"
      by (subst (1 2) step_current_only) (rule accept_subset_current_update [OF inv])
    have 6: "set (accept (snd (run d w))) \<subseteq> set (states (snd (run d w)))"
      by (subst (1 2) run_current_only) (rule accept_subset_current_update [OF inv])
    from 6 have 7: "set (accept (snd (accepts d w))) \<subseteq> set (states (snd (accepts d w)))"
      by (simp add: snd_accepts)
    from 1 2 3 4 5 6 7 show ?thesis by simp
  qed
  from ac st iff ops show ?thesis by (intro conjI impI) simp_all
qed

theorem accept_subset_states_kept_witness:
  "or_empty (None :: state list option) = []
   \<and> set (table_targets (delta (DFA_init None (Some [''a''])
        (Some [(''q0'', [(''a'', ''r'')])]) (Some ''q0'') (Some [''r'']) False))) = {''r''}
   \<and> set (accept target_accept_dfa) \<subseteq> set (states target_accept_dfa)
   \<and> set (accept (add_state target_accept_dfa ''q2'' True))
        \<subseteq> set (states (add_state target_accept_dfa ''q2'' True))
   \<and> set (accept (add_transition target_accept_dfa ''q2'' ''c'' ''q3''))
        \<subseteq> set (states (add_transition target_accept_dfa ''q2'' ''c'' ''q3''))
   \<and> set (accept (make_total target_accept_dfa)) \<subseteq> set (states (make_total target_accept_dfa))
   \<and> set (accept (snd (run target_accept_dfa [''a''])))
        \<subseteq> set (states (snd (run target_accept_dfa [''a''])))"
proof -
  have e: "or_empty (None :: state list option) = []" by (simp add: or_empty_def)
  have t: "set (table_targets (delta (DFA_init None (Some [''a''])
      (Some [(''q0'', [(''a'', ''r'')])]) (Some ''q0'') (Some [''r'']) False))) = {''r''}"
    by code_simp
  have a: "set (or_empty (Some [''r''])) = {''r''}" by (simp add: or_empty_def)
  note r = accept_subset_states_kept [OF refl target_accept_dfa_def,
      of target_accept_dfa "''q2''" True "''q2''" "''c''" "''q3''" "[''a'']"]
  from r have i: "set (accept target_accept_dfa) \<subseteq> set (states target_accept_dfa)"
    by (simp add: t a)
  with r e t show ?thesis by simp
qed

text \<open>Accept states that are no states: construction keeps them.\<close>

theorem accept_outside_states:
  "\<not> set (accept accept_outside_dfa) \<subseteq> set (states accept_outside_dfa)"
  by code_simp


subsection \<open>Two states, two symbols, one entry\<close>

lemma one_entry_assembled:
  assumes "p \<noteq> q" "a \<noteq> b" "s \<in> {p, q}" "t \<in> {p, q}"
  shows "DFA_init (Some [p, q]) (Some [a, b]) (Some [(s, [(x, t)])]) st acc False
    = \<lparr>states = [p, q], alphabet = [a, b], delta = [(s, [(x, t)])], start = st,
        accept = py_set (or_empty acc), current = st\<rparr>"
  using assms
  by (auto simp: DFA_init_def Let_def py_set_def set_add_def or_empty_def
      copy_transitions_def dict_copy_def add_targets_def reset_def)

lemma lookup_one_entry:
  "lookup [(s, [(x, t)])] s' x' = (if s' = s \<and> x' = x then Some t else None)"
  by (simp add: lookup_def get_row_def)

text \<open>
  Claim C8, as amended. Take two different states, neither of them named as the dead
  state, two different symbols, and a transition specification with one entry, from one
  of the two states on one of the two symbols to one of the two states. Before
  completion exactly one of the four entries is defined. Construction with
  \<open>make_total = True\<close> adds one state, the dead state, so that \<open>states\<close> grows from
  two to three; the entry supplied keeps its target, and exactly the three other entries
  over the two original states are new, each with the dead state as target.
\<close>

theorem one_of_four_completion:
  assumes "p \<noteq> q" and "a \<noteq> b" and "p \<noteq> DEAD" and "q \<noteq> DEAD"
    and "s \<in> {p, q}" and "x \<in> {a, b}" and "t \<in> {p, q}"
    and "d0 = DFA_init (Some [p, q]) (Some [a, b]) (Some [(s, [(x, t)])]) st acc False"
    and "d = DFA_init (Some [p, q]) (Some [a, b]) (Some [(s, [(x, t)])]) st acc True"
  shows "states d0 = [p, q] \<and> states d = [p, q, DEAD] \<and> alphabet d = [a, b]
    \<and> length (filter (\<lambda>(s', x'). lookup (delta d0) s' x' \<noteq> None)
                (List.product [p, q] [a, b])) = 1
    \<and> lookup (delta d) s x = Some t \<and> t \<noteq> DEAD
    \<and> length (filter (\<lambda>(s', x'). lookup (delta d0) s' x' = None
                                \<and> lookup (delta d) s' x' = Some DEAD)
                (List.product [p, q] [a, b])) = 3
    \<and> length (filter (\<lambda>(s', x'). lookup (delta d) s' x' = Some DEAD)
                (List.product [p, q] [a, b])) = 3"
proof -
  have d0: "d0 = \<lparr>states = [p, q], alphabet = [a, b], delta = [(s, [(x, t)])], start = st,
      accept = py_set (or_empty acc), current = st\<rparr>"
    unfolding assms(8) using assms(1,2,5,7) by (rule one_entry_assembled)
  have d: "d = make_total d0"
    unfolding assms(8,9) by (rule DFA_init_completed)
  have l0: "lookup (delta d0) s' x' = (if s' = s \<and> x' = x then Some t else None)" for s' x'
    by (simp add: d0 lookup_one_entry)
  have n: "need_dead d0"
    using assms(1,2,5,6) by (auto simp: need_dead_iff d0 lookup_one_entry)
  have l: "lookup (delta d) s' x' =
      (if s' = s \<and> x' = x then Some t
       else if (s' = p \<or> s' = q \<or> s' = DEAD) \<and> (x' = a \<or> x' = b) then Some DEAD else None)"
    for s' x'
    unfolding d lookup_make_total by (auto simp: n l0) (auto simp: d0)
  have tD: "t \<noteq> DEAD" using assms(3,4,7) by auto
  have s0: "states d0 = [p, q]" by (simp add: d0)
  have s1: "states d = [p, q, DEAD]"
    using assms(3,4) by (auto simp: d states_make_total n s0 set_add_def)
  have al: "alphabet d = [a, b]" by (simp add: d make_total_unchanged d0)
  have c0: "length (filter (\<lambda>(s', x'). lookup (delta d0) s' x' \<noteq> None)
      (List.product [p, q] [a, b])) = 1"
    using assms(1,2,5,6) by (auto simp: l0)
  have c1: "length (filter (\<lambda>(s', x'). lookup (delta d0) s' x' = None
      \<and> lookup (delta d) s' x' = Some DEAD) (List.product [p, q] [a, b])) = 3"
    using assms(1,2,5,6) tD by (auto simp: l0 l)
  have c2: "length (filter (\<lambda>(s', x'). lookup (delta d) s' x' = Some DEAD)
      (List.product [p, q] [a, b])) = 3"
    using assms(1,2,5,6) tD by (auto simp: l)
  from s0 s1 al c0 c1 c2 tD show ?thesis by (simp add: l)
qed


theorem one_of_four_completion_witness:
  "''q0'' \<noteq> ''q1'' \<and> ''a'' \<noteq> ''b'' \<and> ''q0'' \<noteq> DEAD \<and> ''q1'' \<noteq> DEAD
   \<and> ''q0'' \<in> {''q0'', ''q1''} \<and> ''a'' \<in> {''a'', ''b''} \<and> ''q1'' \<in> {''q0'', ''q1''}
   \<and> states partial_spec = [''q0'', ''q1'']
   \<and> states partial_dfa = [''q0'', ''q1'', DEAD]
   \<and> lookup (delta partial_dfa) ''q0'' ''a'' = Some ''q1''
   \<and> length (filter (\<lambda>(s', x'). lookup (delta partial_dfa) s' x' = Some DEAD)
               (List.product [''q0'', ''q1''] [''a'', ''b''])) = 3"
proof -
  have h: "''q0'' \<noteq> ''q1''" "''a'' \<noteq> ''b''" "''q0'' \<noteq> DEAD" "''q1'' \<noteq> DEAD"
    "''q0'' \<in> {''q0'', ''q1''}" "''a'' \<in> {''a'', ''b''}" "''q1'' \<in> {''q0'', ''q1''}"
    by (simp_all add: DEAD_def)
  from one_of_four_completion [OF h partial_spec_def partial_dfa_def] h
  show ?thesis by (elim conjE, intro conjI) assumption+
qed

text \<open>
  One of the two states carries the name of the dead state: one of the four entries is
  defined, completion takes the dead-state branch, and \<open>states\<close> still has two
  members.
\<close>

theorem dead_named_state_no_growth:
  "states dead_named_spec = [DEAD, ''q0''] \<and> alphabet dead_named_spec = [''a'', ''b'']
   \<and> lookup (delta dead_named_spec) ''q0'' ''a'' = Some ''q0''
   \<and> lookup (delta dead_named_spec) ''q0'' ''b'' = None
   \<and> lookup (delta dead_named_spec) DEAD ''a'' = None
   \<and> lookup (delta dead_named_spec) DEAD ''b'' = None
   \<and> states dead_named_dfa = [DEAD, ''q0'']
   \<and> length (states dead_named_dfa) = 2"
  by code_simp

end
